theory Spec2Isabelle
  imports Main "HOL-Library.Multiset"
begin

section \<open>Node and split primitives of a model tree\<close>

text \<open>
  The development follows \<^verbatim>\<open>src/modeltrees/_nodes.py\<close>: the class
  \<^verbatim>\<open>TreeNode\<close>, a plain holder of four attributes, and the class
  \<^verbatim>\<open>Split\<close> with its method \<^verbatim>\<open>_apply_split\<close>, which partitions
  the rows of a feature matrix by a threshold on one column.
\<close>

subsection \<open>Errors\<close>

text \<open>
  The exceptions that the array operations of \<^verbatim>\<open>_apply_split\<close> can raise.
  \<open>TypeError\<close> is only raised by the store model below, when an address holds
  an object of another kind than the one the method indexes.
\<close>

datatype error = IndexError | TypeError

subsection \<open>The array operations that the method uses\<close>

text \<open>
  \<^verbatim>\<open>_apply_split\<close> is written against the two-dimensional array of the
  numeric library: \<^verbatim>\<open>X[:, f]\<close>, \<^verbatim>\<open>col <= t\<close>, \<^verbatim>\<open>~mask\<close>,
  \<^verbatim>\<open>X[mask, :]\<close> and \<^verbatim>\<open>y[mask]\<close>. The library is not part of the
  repository; the five operations are modelled here after its documented
  indexing rules.

  A feature matrix of shape \<open>(n_samples, n_features)\<close> is the list of its rows
  together with the number of columns, which an array with no rows still has.
  A target array is the list of its entries along the first axis: scalars for
  shape \<open>(n_samples,)\<close>, rows for shape \<open>(n_samples, n_outputs)\<close>.
\<close>

record 'a ndarray2 =
  n_features :: nat
  samples :: "'a list list"

definition wf_ndarray2 :: "'a ndarray2 \<Rightarrow> bool" where
  "wf_ndarray2 X = list_all (\<lambda>r. length r = n_features X) (samples X)"

definition n_samples :: "'a ndarray2 \<Rightarrow> nat" where
  "n_samples X = length (samples X)"

text \<open>
  An integer index \<open>i\<close> into an axis of size \<open>m\<close>: valid for \<open>-m \<le> i < m\<close>,
  a negative one counting from the end; anything else raises \<open>IndexError\<close>.
\<close>

definition norm_index :: "nat \<Rightarrow> int \<Rightarrow> error + nat" where
  "norm_index m i =
     (if i < - int m \<or> int m \<le> i then Inl IndexError
      else Inr (nat (if i < 0 then i + int m else i)))"

text \<open>\<^verbatim>\<open>X[:, f]\<close>: the column \<open>f\<close> of every row.\<close>

definition get_column :: "'a ndarray2 \<Rightarrow> int \<Rightarrow> error + 'a list" where
  "get_column X f =
     (case norm_index (n_features X) f of
        Inl e \<Rightarrow> Inl e
      | Inr j \<Rightarrow> Inr (map (\<lambda>r. r ! j) (samples X)))"

text \<open>\<^verbatim>\<open>col <= t\<close>: the elementwise comparison with a scalar.\<close>

definition le_scalar :: "('a::ord) list \<Rightarrow> 'a \<Rightarrow> bool list" where
  "le_scalar col t = map (\<lambda>v. v \<le> t) col"

text \<open>\<^verbatim>\<open>~mask\<close>: the elementwise negation of a boolean array.\<close>

definition invert :: "bool list \<Rightarrow> bool list" where
  "invert bs = map Not bs"

text \<open>
  \<^verbatim>\<open>a[mask]\<close>: the entries of \<open>a\<close> along the first axis at which the mask
  is true, in their order, as a new array. The library compares the length of
  the mask with the size of the axis only when the mask is not empty: a
  non-empty mask of another length raises \<open>IndexError\<close>, and an empty mask
  selects nothing from an axis of any size.
\<close>

definition mask_select :: "'b list \<Rightarrow> bool list \<Rightarrow> error + 'b list" where
  "mask_select a bs =
     (if bs \<noteq> [] \<and> length bs \<noteq> length a then Inl IndexError
      else Inr (map fst (filter snd (zip a bs))))"

text \<open>\<^verbatim>\<open>X[mask, :]\<close>: the same selection on the rows, all columns kept.\<close>

definition mask_rows :: "'a ndarray2 \<Rightarrow> bool list \<Rightarrow> error + 'a ndarray2" where
  "mask_rows X bs =
     (case mask_select (samples X) bs of
        Inl e \<Rightarrow> Inl e
      | Inr rs \<Rightarrow> Inr \<lparr>n_features = n_features X, samples = rs\<rparr>)"

subsection \<open>Split\<close>

text \<open>
  \<^verbatim>\<open>Split.__init__\<close> stores its two arguments. \<open>split_feature\<close> is a
  Python integer, so it may be negative.
\<close>

record 'a Split =
  split_feature :: int
  split_threshold :: 'a

text \<open>
  The returned list holds, for each side, either the feature rows alone
  (\<open>y is None\<close>) or the pair of feature rows and targets.
\<close>

datatype ('a, 'b) subset = Features "'a ndarray2" | WithTarget "'a ndarray2" "'b list"

fun features :: "('a, 'b) subset \<Rightarrow> 'a ndarray2" where
  "features (Features A) = A"
| "features (WithTarget A t) = A"

fun target :: "('a, 'b) subset \<Rightarrow> 'b list option" where
  "target (Features A) = None"
| "target (WithTarget A t) = Some t"

text \<open>
  \<^verbatim>\<open>Split._apply_split(self, X, y=None)\<close>. The elements of the returned list
  are evaluated left to right, and the first operation that raises ends the
  call.
\<close>

definition apply_split ::
  "('a::ord) Split \<Rightarrow> 'a ndarray2 \<Rightarrow> 'b list option \<Rightarrow> error + ('a, 'b) subset list" where
  "apply_split self X y =
     (case get_column X (split_feature self) of
        Inl e \<Rightarrow> Inl e
      | Inr col \<Rightarrow>
          let split_filter = le_scalar col (split_threshold self) in
          (case y of
             None \<Rightarrow>
               (case mask_rows X split_filter of
                  Inl e \<Rightarrow> Inl e
                | Inr xl \<Rightarrow>
                    (case mask_rows X (invert split_filter) of
                       Inl e \<Rightarrow> Inl e
                     | Inr xr \<Rightarrow> Inr [Features xl, Features xr]))
           | Some yv \<Rightarrow>
               (case mask_rows X split_filter of
                  Inl e \<Rightarrow> Inl e
                | Inr xl \<Rightarrow>
                    (case mask_select yv split_filter of
                       Inl e \<Rightarrow> Inl e
                     | Inr yl \<Rightarrow>
                         (case mask_rows X (invert split_filter) of
                            Inl e \<Rightarrow> Inl e
                          | Inr xr \<Rightarrow>
                              (case mask_select yv (invert split_filter) of
                                 Inl e \<Rightarrow> Inl e
                               | Inr yr \<Rightarrow> Inr [WithTarget xl yl, WithTarget xr yr]))))))"

subsection \<open>TreeNode\<close>

text \<open>
  \<^verbatim>\<open>TreeNode.__init__\<close> assigns its four arguments to the attributes of
  the same names and checks none of them. The estimator is opaque.
\<close>

datatype ('e, 'a) TreeNode =
  TreeNode (depth: int) (estimator: "'e option")
    (children: "('e, 'a) TreeNode list option") (split: "'a Split option")

text \<open>
  The shape invariant in the words of the specification: the children, when
  present, are exactly two nodes that have the shape in turn. The docstring
  asks for a list of two or of no elements, or \<open>None\<close>; the constructor checks
  neither.
\<close>

fun valid_node :: "('e, 'a) TreeNode \<Rightarrow> bool" where
  "valid_node (TreeNode d e None s) = True"
| "valid_node (TreeNode d e (Some cs) s) = (length cs = 2 \<and> list_all valid_node cs)"

subsection \<open>Positions selected by a mask\<close>

text \<open>
  The positions at which a boolean array is true, in increasing order. The
  statements below use it to say which rows of the input a subset holds.
\<close>

fun true_indices :: "bool list \<Rightarrow> nat list" where
  "true_indices [] = []"
| "true_indices (b # bs) = (if b then [0] else []) @ map Suc (true_indices bs)"

subsection \<open>The spec's example data\<close>

text \<open>
  The split, the matrix and the targets of the spec's end-to-end scenarios, with
  the two sides they are split into.
\<close>

abbreviation example_split :: "int Split" where
  "example_split \<equiv> \<lparr>split_feature = 0, split_threshold = 5\<rparr>"

abbreviation example_X :: "int ndarray2" where
  "example_X \<equiv> \<lparr>n_features = 1, samples = [[3], [5], [7]]\<rparr>"

abbreviation example_y :: "int list" where
  "example_y \<equiv> [10, 20, 30]"

abbreviation example_left :: "(int, int) subset" where
  "example_left \<equiv> WithTarget \<lparr>n_features = 1, samples = [[3], [5]]\<rparr> [10, 20]"

abbreviation example_right :: "(int, int) subset" where
  "example_right \<equiv> WithTarget \<lparr>n_features = 1, samples = [[7]]\<rparr> [30]"

subsection \<open>The method over a store of objects\<close>

text \<open>
  Whether the call changes its arguments cannot be read off a function of
  values, so the method is modelled a second time over a store: a list of
  objects, an address being a position in it. Creating an object appends it.
  Each array operation of the method reads its operands from the store and
  creates its result: indexing by a boolean array copies the selected entries,
  and the comparison and the negation build a new boolean array. The column
  \<^verbatim>\<open>X[:, f]\<close> is a view that is only read and is not an object of its own
  here. The method assigns to no attribute and to no array element, so no step
  writes to an address. An address that holds no object of the kind an
  operation expects ends the call with \<open>TypeError\<close>.
\<close>

datatype ('a, 'b) obj =
    Split_obj "'a Split"
  | Array2 "'a ndarray2"
  | Array1 "'b list"
  | Bool_array "bool list"

type_synonym ('a, 'b) store = "('a, 'b) obj list"

definition lookup :: "('a, 'b) store \<Rightarrow> nat \<Rightarrow> ('a, 'b) obj option" where
  "lookup h a = (if a < length h then Some (h ! a) else None)"

definition alloc :: "('a, 'b) obj \<Rightarrow> ('a, 'b) store \<Rightarrow> (error + nat) \<times> ('a, 'b) store" where
  "alloc v h = (Inr (length h), h @ [v])"

text \<open>Sequencing: the first step that raises ends the call.\<close>

definition st_bind ::
  "('s \<Rightarrow> (error + 'x) \<times> 's) \<Rightarrow> ('x \<Rightarrow> 's \<Rightarrow> (error + 'z) \<times> 's) \<Rightarrow> 's \<Rightarrow> (error + 'z) \<times> 's" where
  "st_bind m k h = (case m h of (Inl e, h') \<Rightarrow> (Inl e, h') | (Inr v, h') \<Rightarrow> k v h')"

text \<open>\<^verbatim>\<open>X[:, self.split_feature] <= self.split_threshold\<close>\<close>

definition st_column_le :: "nat \<Rightarrow> nat \<Rightarrow> (('a::ord), 'b) store \<Rightarrow> (error + nat) \<times> ('a, 'b) store" where
  "st_column_le X_a self_a h =
     (case (lookup h X_a, lookup h self_a) of
        (Some (Array2 X), Some (Split_obj self)) \<Rightarrow>
          (case get_column X (split_feature self) of
             Inl e \<Rightarrow> (Inl e, h)
           | Inr col \<Rightarrow> alloc (Bool_array (le_scalar col (split_threshold self))) h)
      | _ \<Rightarrow> (Inl TypeError, h))"

text \<open>\<^verbatim>\<open>~split_filter\<close>\<close>

definition st_invert :: "nat \<Rightarrow> ('a, 'b) store \<Rightarrow> (error + nat) \<times> ('a, 'b) store" where
  "st_invert m_a h =
     (case lookup h m_a of
        Some (Bool_array bs) \<Rightarrow> alloc (Bool_array (invert bs)) h
      | _ \<Rightarrow> (Inl TypeError, h))"

text \<open>\<^verbatim>\<open>X[m, :]\<close>\<close>

definition st_mask_rows :: "nat \<Rightarrow> nat \<Rightarrow> ('a, 'b) store \<Rightarrow> (error + nat) \<times> ('a, 'b) store" where
  "st_mask_rows X_a m_a h =
     (case (lookup h X_a, lookup h m_a) of
        (Some (Array2 X), Some (Bool_array bs)) \<Rightarrow>
          (case mask_rows X bs of
             Inl e \<Rightarrow> (Inl e, h)
           | Inr A \<Rightarrow> alloc (Array2 A) h)
      | _ \<Rightarrow> (Inl TypeError, h))"

text \<open>\<^verbatim>\<open>y[m]\<close>\<close>

definition st_mask_select :: "nat \<Rightarrow> nat \<Rightarrow> ('a, 'b) store \<Rightarrow> (error + nat) \<times> ('a, 'b) store" where
  "st_mask_select y_a m_a h =
     (case (lookup h y_a, lookup h m_a) of
        (Some (Array1 yv), Some (Bool_array bs)) \<Rightarrow>
          (case mask_select yv bs of
             Inl e \<Rightarrow> (Inl e, h)
           | Inr t \<Rightarrow> alloc (Array1 t) h)
      | _ \<Rightarrow> (Inl TypeError, h))"

text \<open>
  The returned list refers to the arrays it holds: one address for a feature
  matrix, two for a pair.
\<close>

datatype subset_ref = Features_ref nat | WithTarget_ref nat nat

fun refs :: "subset_ref \<Rightarrow> nat list" where
  "refs (Features_ref a) = [a]"
| "refs (WithTarget_ref a t) = [a, t]"

text \<open>
  \<^verbatim>\<open>_apply_split\<close> on addresses: \<open>self_a\<close> of the split, \<open>X_a\<close> of the
  matrix, \<open>y_a\<close> of the targets or \<open>None\<close>. The steps are those of the source
  in its order of evaluation; \<^verbatim>\<open>~split_filter\<close> is evaluated once for each
  place it is written.
\<close>

definition apply_split_store ::
  "nat \<Rightarrow> nat \<Rightarrow> nat option \<Rightarrow> (('a::ord), 'b) store \<Rightarrow> (error + subset_ref list) \<times> ('a, 'b) store" where
  "apply_split_store self_a X_a y_a =
     st_bind (st_column_le X_a self_a) (\<lambda>split_filter.
       case y_a of
         None \<Rightarrow>
           st_bind (st_mask_rows X_a split_filter) (\<lambda>xl.
           st_bind (st_invert split_filter) (\<lambda>nf.
           st_bind (st_mask_rows X_a nf) (\<lambda>xr.
           Pair (Inr [Features_ref xl, Features_ref xr]))))
       | Some ya \<Rightarrow>
           st_bind (st_mask_rows X_a split_filter) (\<lambda>xl.
           st_bind (st_mask_select ya split_filter) (\<lambda>yl.
           st_bind (st_invert split_filter) (\<lambda>nf.
           st_bind (st_mask_rows X_a nf) (\<lambda>xr.
           st_bind (st_invert split_filter) (\<lambda>nf'.
           st_bind (st_mask_select ya nf') (\<lambda>yr.
           Pair (Inr [WithTarget_ref xl yl, WithTarget_ref xr yr]))))))))"

text \<open>The subset that a returned reference stands for in a store.\<close>

fun deref :: "('a, 'b) store \<Rightarrow> subset_ref \<Rightarrow> ('a, 'b) subset option" where
  "deref h (Features_ref a) =
     (case lookup h a of Some (Array2 A) \<Rightarrow> Some (Features A) | _ \<Rightarrow> None)"
| "deref h (WithTarget_ref a t) =
     (case (lookup h a, lookup h t) of
        (Some (Array2 A), Some (Array1 yv)) \<Rightarrow> Some (WithTarget A yv)
      | _ \<Rightarrow> None)"

section \<open>Properties\<close>

subsection \<open>Selection by a mask\<close>

lemma in_true_indices: "i \<in> set (true_indices bs) \<longleftrightarrow> i < length bs \<and> bs ! i"
proof (induction bs arbitrary: i)
  case Nil
  then show ?case by simp
next
  case (Cons b bs)
  show ?case
  proof (cases i)
    case 0
    then show ?thesis by auto
  next
    case (Suc k)
    then show ?thesis using Cons [of k] by auto
  qed
qed

lemma set_true_indices: "set (true_indices bs) = {i. i < length bs \<and> bs ! i}"
  using in_true_indices by blast

lemma sorted_true_indices: "sorted_wrt (<) (true_indices bs)"
  by (induction bs) (auto simp: sorted_wrt_append sorted_wrt_map)

lemma distinct_true_indices: "distinct (true_indices bs)"
  using sorted_true_indices [of bs] strict_sorted_iff by blast

lemma select_true_indices:
  "length a = length bs \<Longrightarrow> map fst (filter snd (zip a bs)) = map ((!) a) (true_indices bs)"
  by (induction a bs rule: list_induct2) (auto simp: comp_def)

lemma select_map: "map fst (filter snd (zip xs (map Q xs))) = filter Q xs"
  by (induction xs) auto

lemma select_map2: "length ys = length xs \<Longrightarrow>
   map fst (filter snd (zip ys (map Q xs))) = map snd (filter (\<lambda>p. Q (fst p)) (zip xs ys))"
  by (induction ys xs rule: list_induct2) auto

lemma filter_as_indices: "filter Q xs = map ((!) xs) (true_indices (map Q xs))"
  using select_true_indices [of xs "map Q xs"] by (simp add: select_map)

lemma filter_zip_as_indices:
  "length ys = length xs \<Longrightarrow>
   map snd (filter (\<lambda>p. Q (fst p)) (zip xs ys)) = map ((!) ys) (true_indices (map Q xs))"
  using select_true_indices [of ys "map Q xs"] by (simp add: select_map2)

lemma true_indices_cover:
  "set (true_indices (map Q xs)) \<union> set (true_indices (map (\<lambda>r. \<not> Q r) xs)) = {..<length xs}"
  "set (true_indices (map Q xs)) \<inter> set (true_indices (map (\<lambda>r. \<not> Q r) xs)) = {}"
  by (auto simp: set_true_indices)

lemma zip_filter_fst:
  "length ys = length xs \<Longrightarrow>
   zip (filter Q xs) (map snd (filter (\<lambda>p. Q (fst p)) (zip xs ys)))
     = filter (\<lambda>p. Q (fst p)) (zip xs ys)"
  by (induction ys xs rule: list_induct2) auto

lemma length_filter_zip_fst:
  "length ys = length xs \<Longrightarrow>
   length (filter (\<lambda>p. Q (fst p)) (zip xs ys)) = length (filter Q xs)"
  by (induction ys xs rule: list_induct2) auto

subsection \<open>What the method returns\<close>

lemma invert_map: "invert (map Q xs) = map (\<lambda>r. \<not> Q r) xs"
  by (simp add: invert_def comp_def)

lemma le_scalar_map: "le_scalar (map g xs) t = map (\<lambda>r. g r \<le> t) xs"
  by (simp add: le_scalar_def comp_def)

lemma norm_index_cases:
  "norm_index m i = Inl IndexError \<and> (i < - int m \<or> int m \<le> i)
   \<or> (\<exists>j. norm_index m i = Inr j \<and> j < m \<and> - int m \<le> i \<and> i < int m)"
  by (auto simp: norm_index_def)

lemma apply_split_None_eq:
  assumes "norm_index (n_features X) (split_feature self) = Inr j" and "y = None"
  shows "apply_split self X y =
     Inr [Features \<lparr>n_features = n_features X,
            samples = filter (\<lambda>r. r ! j \<le> split_threshold self) (samples X)\<rparr>,
          Features \<lparr>n_features = n_features X,
            samples = filter (\<lambda>r. \<not> r ! j \<le> split_threshold self) (samples X)\<rparr>]"
  using assms
  by (simp add: apply_split_def get_column_def mask_rows_def mask_select_def
      invert_map le_scalar_map Let_def select_map)

lemma apply_split_Some_eq:
  assumes "norm_index (n_features X) (split_feature self) = Inr j"
    and "length yv = length (samples X)"
  shows "apply_split self X (Some yv) =
     Inr [WithTarget \<lparr>n_features = n_features X,
            samples = filter (\<lambda>r. r ! j \<le> split_threshold self) (samples X)\<rparr>
            (map snd (filter (\<lambda>p. fst p ! j \<le> split_threshold self) (zip (samples X) yv))),
          WithTarget \<lparr>n_features = n_features X,
            samples = filter (\<lambda>r. \<not> r ! j \<le> split_threshold self) (samples X)\<rparr>
            (map snd (filter (\<lambda>p. \<not> fst p ! j \<le> split_threshold self) (zip (samples X) yv)))]"
  using assms
  by (simp add: apply_split_def get_column_def mask_rows_def mask_select_def
      invert_map le_scalar_map Let_def select_map select_map2)

lemma apply_split_index_error:
  assumes "norm_index (n_features X) (split_feature self) = Inl e"
  shows "apply_split self X y = Inl e"
  using assms by (simp add: apply_split_def get_column_def)

lemma apply_split_length_error:
  assumes "norm_index (n_features X) (split_feature self) = Inr j"
    and "length yv \<noteq> length (samples X)" and "samples X \<noteq> []"
  shows "apply_split self X (Some yv) = Inl IndexError"
  using assms
  by (simp add: apply_split_def get_column_def mask_rows_def mask_select_def
      invert_map le_scalar_map Let_def)

text \<open>
  On a matrix with no rows the mask is empty, so targets of any length are
  accepted and nothing is selected from them.
\<close>

lemma apply_split_no_rows:
  assumes "samples X = []"
  shows "apply_split self X (Some yv) = apply_split self X (Some [])"
  using assms
  by (simp add: apply_split_def get_column_def mask_rows_def mask_select_def
      le_scalar_def invert_def Let_def split: sum.splits)

lemma apply_split_Inr_D:
  assumes "apply_split self X y = Inr res"
  shows "\<exists>j. norm_index (n_features X) (split_feature self) = Inr j \<and> j < n_features X
     \<and> (\<forall>yv. y = Some yv \<longrightarrow> length yv = length (samples X) \<or> samples X = [])"
proof -
  from norm_index_cases [of "n_features X" "split_feature self"]
  obtain j where j: "norm_index (n_features X) (split_feature self) = Inr j" "j < n_features X"
    using assms apply_split_index_error [of X self IndexError y] by auto
  have "length yv = length (samples X) \<or> samples X = []" if "y = Some yv" for yv
    using assms that apply_split_length_error [OF j(1), of yv] by auto
  with j show ?thesis by blast
qed

text \<open>
  A call that returns returns what a call with \<open>y\<close> absent or as long as \<open>X\<close>
  has rows returns.
\<close>

lemma apply_split_Inr_aligned:
  assumes "apply_split self X y = Inr res"
  shows "\<exists>y'. apply_split self X y' = Inr res
     \<and> (case y' of None \<Rightarrow> True | Some yv \<Rightarrow> length yv = n_samples X)
     \<and> (y' = None \<longleftrightarrow> y = None)"
proof (cases y)
  case None
  with assms show ?thesis by (intro exI [of _ None]) simp
next
  case (Some yv)
  from apply_split_Inr_D [OF assms] Some
  have "length yv = length (samples X) \<or> samples X = []" by blast
  then show ?thesis
  proof
    assume "length yv = length (samples X)"
    with assms Some show ?thesis by (intro exI [of _ "Some yv"]) (simp add: n_samples_def)
  next
    assume e: "samples X = []"
    with assms Some apply_split_no_rows [OF e, of self yv]
    show ?thesis by (intro exI [of _ "Some []"]) (simp add: n_samples_def)
  qed
qed

lemma apply_split_Inr_char:
  assumes "apply_split self X y = Inr res"
    and "case y of None \<Rightarrow> True | Some yv \<Rightarrow> length yv = n_samples X"
  shows "\<exists>j. norm_index (n_features X) (split_feature self) = Inr j \<and> j < n_features X \<and>
     (case y of
        None \<Rightarrow> res =
          [Features \<lparr>n_features = n_features X,
             samples = filter (\<lambda>r. r ! j \<le> split_threshold self) (samples X)\<rparr>,
           Features \<lparr>n_features = n_features X,
             samples = filter (\<lambda>r. \<not> r ! j \<le> split_threshold self) (samples X)\<rparr>]
      | Some yv \<Rightarrow> length yv = length (samples X) \<and> res =
          [WithTarget \<lparr>n_features = n_features X,
             samples = filter (\<lambda>r. r ! j \<le> split_threshold self) (samples X)\<rparr>
             (map snd (filter (\<lambda>p. fst p ! j \<le> split_threshold self) (zip (samples X) yv))),
           WithTarget \<lparr>n_features = n_features X,
             samples = filter (\<lambda>r. \<not> r ! j \<le> split_threshold self) (samples X)\<rparr>
             (map snd (filter (\<lambda>p. \<not> fst p ! j \<le> split_threshold self) (zip (samples X) yv)))])"
proof -
  from apply_split_Inr_D [OF assms(1)]
  obtain j where j: "norm_index (n_features X) (split_feature self) = Inr j"
    and jm: "j < n_features X"
    by blast
  show ?thesis
  proof (cases y)
    case None
    with assms(1) apply_split_None_eq [OF j None] j jm show ?thesis by simp
  next
    case (Some yv)
    with assms(2) have lyv: "length yv = length (samples X)" by (simp add: n_samples_def)
    from assms(1) apply_split_Some_eq [OF j lyv] Some j jm lyv show ?thesis by simp
  qed
qed

text \<open>
  The call returns when \<open>split_feature\<close> is a valid column index of \<open>X\<close> and
  \<open>y\<close>, if given, has as many entries as \<open>X\<close> has rows.
\<close>

lemma apply_split_returns:
  assumes "- int (n_features X) \<le> split_feature self"
    and "split_feature self < int (n_features X)"
    and "case y of None \<Rightarrow> True | Some yv \<Rightarrow> length yv = n_samples X"
  shows "\<exists>res. apply_split self X y = Inr res"
proof -
  from assms(1,2) obtain j where j: "norm_index (n_features X) (split_feature self) = Inr j"
    by (auto simp: norm_index_def)
  show ?thesis
  proof (cases y)
    case None
    with apply_split_None_eq [OF j None] show ?thesis by blast
  next
    case (Some yv)
    with assms(3) have "length yv = length (samples X)" by (simp add: n_samples_def)
    from apply_split_Some_eq [OF j this] Some show ?thesis by blast
  qed
qed

text \<open>What a returned result is made of, for any call that returns.\<close>

lemma apply_split_Inr_partition:
  assumes "apply_split self X y = Inr res"
    and "case y of None \<Rightarrow> True | Some yv \<Rightarrow> length yv = n_samples X"
  shows "\<exists>L R. res = [L, R]
     \<and> n_samples (features L) + n_samples (features R) = n_samples X
     \<and> mset (samples (features L)) + mset (samples (features R)) = mset (samples X)
     \<and> (case y of
          None \<Rightarrow> target L = None \<and> target R = None
        | Some yv \<Rightarrow> \<exists>yl yr. target L = Some yl \<and> target R = Some yr
            \<and> length yl = n_samples (features L) \<and> length yr = n_samples (features R)
            \<and> length yl + length yr = length yv
            \<and> mset (zip (samples (features L)) yl) + mset (zip (samples (features R)) yr)
                = mset (zip (samples X) yv))"
proof -
  from apply_split_Inr_char [OF assms] obtain j where
    c: "case y of
        None \<Rightarrow> res =
          [Features \<lparr>n_features = n_features X,
             samples = filter (\<lambda>r. r ! j \<le> split_threshold self) (samples X)\<rparr>,
           Features \<lparr>n_features = n_features X,
             samples = filter (\<lambda>r. \<not> r ! j \<le> split_threshold self) (samples X)\<rparr>]
      | Some yv \<Rightarrow> length yv = length (samples X) \<and> res =
          [WithTarget \<lparr>n_features = n_features X,
             samples = filter (\<lambda>r. r ! j \<le> split_threshold self) (samples X)\<rparr>
             (map snd (filter (\<lambda>p. fst p ! j \<le> split_threshold self) (zip (samples X) yv))),
           WithTarget \<lparr>n_features = n_features X,
             samples = filter (\<lambda>r. \<not> r ! j \<le> split_threshold self) (samples X)\<rparr>
             (map snd (filter (\<lambda>p. \<not> fst p ! j \<le> split_threshold self) (zip (samples X) yv)))]"
    by blast
  define Q where "Q = (\<lambda>r::'a list. r ! j \<le> split_threshold self)"
  have cnt: "length (filter Q (samples X)) + length (filter (\<lambda>r. \<not> Q r) (samples X))
      = length (samples X)"
    by (rule sum_length_filter_compl)
  show ?thesis
  proof (cases y)
    case None
    with c cnt show ?thesis by (simp add: n_samples_def Q_def)
  next
    case (Some yv)
    with c have lyv: "length yv = length (samples X)" by simp
    have ly: "length (filter (\<lambda>p. Q (fst p)) (zip (samples X) yv))
          + length (filter (\<lambda>p. \<not> Q (fst p)) (zip (samples X) yv)) = length yv"
      using lyv sum_length_filter_compl [of "\<lambda>p. Q (fst p)" "zip (samples X) yv"] by simp
    have ms: "mset (filter (\<lambda>p. Q (fst p)) (zip (samples X) yv))
          + mset (filter (\<lambda>p. \<not> Q (fst p)) (zip (samples X) yv)) = mset (zip (samples X) yv)"
      by simp
    note zs = zip_filter_fst [OF lyv, of Q] zip_filter_fst [OF lyv, of "\<lambda>r. \<not> Q r"]
      length_filter_zip_fst [OF lyv, of Q] length_filter_zip_fst [OF lyv, of "\<lambda>r. \<not> Q r"]
    from c Some cnt ly ms lyv zs show ?thesis
      by (simp add: n_samples_def Q_def)
  qed
qed

lemma apply_split_Inr_stable:
  assumes "apply_split self X y = Inr res"
    and "case y of None \<Rightarrow> True | Some yv \<Rightarrow> length yv = n_samples X"
  shows "\<exists>il ir. sorted_wrt (<) il \<and> sorted_wrt (<) ir
     \<and> set il \<union> set ir = {..<n_samples X} \<and> set il \<inter> set ir = {}
     \<and> (case y of
          None \<Rightarrow> res =
            [Features \<lparr>n_features = n_features X, samples = map ((!) (samples X)) il\<rparr>,
             Features \<lparr>n_features = n_features X, samples = map ((!) (samples X)) ir\<rparr>]
        | Some yv \<Rightarrow> length yv = n_samples X \<and> res =
            [WithTarget \<lparr>n_features = n_features X, samples = map ((!) (samples X)) il\<rparr>
               (map ((!) yv) il),
             WithTarget \<lparr>n_features = n_features X, samples = map ((!) (samples X)) ir\<rparr>
               (map ((!) yv) ir)])"
proof -
  from apply_split_Inr_char [OF assms] obtain j where
    c: "case y of
        None \<Rightarrow> res =
          [Features \<lparr>n_features = n_features X,
             samples = filter (\<lambda>r. r ! j \<le> split_threshold self) (samples X)\<rparr>,
           Features \<lparr>n_features = n_features X,
             samples = filter (\<lambda>r. \<not> r ! j \<le> split_threshold self) (samples X)\<rparr>]
      | Some yv \<Rightarrow> length yv = length (samples X) \<and> res =
          [WithTarget \<lparr>n_features = n_features X,
             samples = filter (\<lambda>r. r ! j \<le> split_threshold self) (samples X)\<rparr>
             (map snd (filter (\<lambda>p. fst p ! j \<le> split_threshold self) (zip (samples X) yv))),
           WithTarget \<lparr>n_features = n_features X,
             samples = filter (\<lambda>r. \<not> r ! j \<le> split_threshold self) (samples X)\<rparr>
             (map snd (filter (\<lambda>p. \<not> fst p ! j \<le> split_threshold self) (zip (samples X) yv)))]"
    by blast
  define Q where "Q = (\<lambda>r::'a list. r ! j \<le> split_threshold self)"
  define il where "il = true_indices (map Q (samples X))"
  define ir where "ir = true_indices (map (\<lambda>r. \<not> Q r) (samples X))"
  have idx: "sorted_wrt (<) il" "sorted_wrt (<) ir"
    "set il \<union> set ir = {..<n_samples X}" "set il \<inter> set ir = {}"
    by (simp_all add: il_def ir_def sorted_true_indices true_indices_cover n_samples_def)
  have fl: "filter Q (samples X) = map ((!) (samples X)) il"
    and fr: "filter (\<lambda>r. \<not> Q r) (samples X) = map ((!) (samples X)) ir"
    unfolding il_def ir_def by (rule filter_as_indices)+
  have "case y of
          None \<Rightarrow> res =
            [Features \<lparr>n_features = n_features X, samples = map ((!) (samples X)) il\<rparr>,
             Features \<lparr>n_features = n_features X, samples = map ((!) (samples X)) ir\<rparr>]
        | Some yv \<Rightarrow> length yv = n_samples X \<and> res =
            [WithTarget \<lparr>n_features = n_features X, samples = map ((!) (samples X)) il\<rparr>
               (map ((!) yv) il),
             WithTarget \<lparr>n_features = n_features X, samples = map ((!) (samples X)) ir\<rparr>
               (map ((!) yv) ir)]"
  proof (cases y)
    case None
    with c fl fr show ?thesis by (simp add: Q_def)
  next
    case (Some yv)
    with c have lyv: "length yv = length (samples X)" by simp
    have yl: "map snd (filter (\<lambda>p. Q (fst p)) (zip (samples X) yv)) = map ((!) yv) il"
      and yr: "map snd (filter (\<lambda>p. \<not> Q (fst p)) (zip (samples X) yv)) = map ((!) yv) ir"
      unfolding il_def ir_def using lyv by (rule filter_zip_as_indices)+
    from c Some fl fr yl yr lyv show ?thesis by (simp add: Q_def n_samples_def)
  qed
  with idx show ?thesis by blast
qed

text \<open>
  Both sides keep all the columns: they have the number of columns of \<open>X\<close>, and
  rows of that length when the rows of \<open>X\<close> have it.
\<close>

lemma apply_split_columns:
  assumes "apply_split self X y = Inr res" and "S \<in> set res"
  shows "n_features (features S) = n_features X"
    and "wf_ndarray2 X \<Longrightarrow> wf_ndarray2 (features S)"
proof -
  from apply_split_Inr_aligned [OF assms(1)] obtain y' where
    "apply_split self X y' = Inr res"
    and "case y' of None \<Rightarrow> True | Some yv \<Rightarrow> length yv = n_samples X"
    by blast
  from apply_split_Inr_char [OF this] assms(2)
  have "n_features (features S) = n_features X \<and> set (samples (features S)) \<subseteq> set (samples X)"
    by (cases y') auto
  then show "n_features (features S) = n_features X"
    and "wf_ndarray2 X \<Longrightarrow> wf_ndarray2 (features S)"
    by (auto simp: wf_ndarray2_def list_all_iff)
qed

lemma example_split_y:
  "apply_split example_split example_X (Some example_y) = Inr [example_left, example_right]"
  by (simp add: apply_split_def get_column_def norm_index_def le_scalar_def
      invert_def mask_rows_def mask_select_def)

subsection \<open>The claims about \<open>_apply_split\<close>\<close>

text \<open>
  C1: for a split on a valid column of \<open>X\<close>, and \<open>y\<close> absent or as long as
  \<open>X\<close> has rows, \<open>_apply_split\<close> returns exactly two subsets whose row counts
  sum to the number of rows of \<open>X\<close>, and the rows of the two subsets together
  are the rows of \<open>X\<close>, each as often as it occurs there. Without \<open>y\<close> both
  subsets are feature matrices; with \<open>y\<close> both are pairs whose targets are as
  long as their feature rows, and the (row, target) pairs of the two subsets
  together are those of the input.
\<close>

theorem apply_split_partition:
  assumes "- int (n_features X) \<le> split_feature self"
    and "split_feature self < int (n_features X)"
    and "case y of None \<Rightarrow> True | Some yv \<Rightarrow> length yv = n_samples X"
  shows "\<exists>L R. apply_split self X y = Inr [L, R]
     \<and> n_samples (features L) + n_samples (features R) = n_samples X
     \<and> mset (samples (features L)) + mset (samples (features R)) = mset (samples X)
     \<and> (case y of
          None \<Rightarrow> target L = None \<and> target R = None
        | Some yv \<Rightarrow> \<exists>yl yr. target L = Some yl \<and> target R = Some yr
            \<and> length yl = n_samples (features L) \<and> length yr = n_samples (features R)
            \<and> length yl + length yr = length yv
            \<and> mset (zip (samples (features L)) yl) + mset (zip (samples (features R)) yr)
                = mset (zip (samples X) yv))"
proof -
  from apply_split_returns [OF assms] obtain res where r: "apply_split self X y = Inr res" ..
  show ?thesis unfolding r using apply_split_Inr_partition [OF r assms(3)] by simp
qed

theorem apply_split_partition_witness:
  "- int (n_features example_X) \<le> split_feature example_split
   \<and> split_feature example_split < int (n_features example_X)
   \<and> length example_y = n_samples example_X
   \<and> (\<exists>L R. apply_split example_split example_X (Some example_y) = Inr [L, R]
       \<and> n_samples (features L) + n_samples (features R) = n_samples example_X
       \<and> mset (samples (features L)) + mset (samples (features R))
           = mset (samples example_X)
       \<and> (\<exists>yl yr. target L = Some yl \<and> target R = Some yr
            \<and> length yl = n_samples (features L) \<and> length yr = n_samples (features R)
            \<and> length yl + length yr = length example_y
            \<and> mset (zip (samples (features L)) yl) + mset (zip (samples (features R)) yr)
                = mset (zip (samples example_X) example_y)))"
  using apply_split_partition [of example_X example_split "Some example_y"]
  by (simp add: n_samples_def)

text \<open>
  C2: a row whose value in the split column equals the threshold is in the
  left subset and not in the right one; with \<open>y\<close>, the same holds for the row
  paired with its target. The column \<open>j\<close> is the one that \<open>split_feature\<close>
  denotes in \<open>X\<close>, and \<open>y\<close> is absent or as long as \<open>X\<close> has rows.
\<close>

theorem apply_split_tie_left:
  fixes self :: "('a::preorder) Split"
  assumes "norm_index (n_features X) (split_feature self) = Inr j"
    and "case y of None \<Rightarrow> True | Some yv \<Rightarrow> length yv = n_samples X"
    and "i < n_samples X"
    and "samples X ! i ! j = split_threshold self"
  shows "\<exists>L R. apply_split self X y = Inr [L, R]
     \<and> samples X ! i \<in> set (samples (features L))
     \<and> samples X ! i \<notin> set (samples (features R))
     \<and> (case y of
          None \<Rightarrow> target L = None \<and> target R = None
        | Some yv \<Rightarrow> \<exists>yl yr. target L = Some yl \<and> target R = Some yr
            \<and> (samples X ! i, yv ! i) \<in> set (zip (samples (features L)) yl)
            \<and> (samples X ! i, yv ! i) \<notin> set (zip (samples (features R)) yr))"
proof -
  define Q where "Q = (\<lambda>r::'a list. r ! j \<le> split_threshold self)"
  have qi: "Q (samples X ! i)" using assms(4) by (simp add: Q_def)
  have mem: "samples X ! i \<in> set (samples X)" using assms(3) by (simp add: n_samples_def)
  show ?thesis
  proof (cases y)
    case None
    from apply_split_None_eq [OF assms(1) None]
    have "apply_split self X y =
        Inr [Features \<lparr>n_features = n_features X, samples = filter Q (samples X)\<rparr>,
             Features \<lparr>n_features = n_features X,
               samples = filter (\<lambda>r. \<not> Q r) (samples X)\<rparr>]"
      by (simp add: Q_def)
    with qi mem None show ?thesis by simp
  next
    case (Some yv)
    with assms(2) have lyv: "length yv = length (samples X)" by (simp add: n_samples_def)
    have pm: "(samples X ! i, yv ! i) \<in> set (zip (samples X) yv)"
      using assms(3) lyv by (auto simp: set_zip n_samples_def)
    note zs = zip_filter_fst [OF lyv, of Q] zip_filter_fst [OF lyv, of "\<lambda>r. \<not> Q r"]
    from apply_split_Some_eq [OF assms(1) lyv] Some
    have "apply_split self X y =
        Inr [WithTarget \<lparr>n_features = n_features X, samples = filter Q (samples X)\<rparr>
               (map snd (filter (\<lambda>p. Q (fst p)) (zip (samples X) yv))),
             WithTarget \<lparr>n_features = n_features X,
                 samples = filter (\<lambda>r. \<not> Q r) (samples X)\<rparr>
               (map snd (filter (\<lambda>p. \<not> Q (fst p)) (zip (samples X) yv)))]"
      by (simp add: Q_def)
    with qi mem pm zs Some show ?thesis by simp
  qed
qed

theorem apply_split_tie_left_witness:
  "norm_index (n_features example_X) (split_feature example_split) = Inr 0
   \<and> length example_y = n_samples example_X
   \<and> 1 < n_samples example_X
   \<and> samples example_X ! 1 ! 0 = split_threshold example_split
   \<and> (\<exists>L R. apply_split example_split example_X (Some example_y) = Inr [L, R]
       \<and> [5] \<in> set (samples (features L)) \<and> [5] \<notin> set (samples (features R))
       \<and> (\<exists>yl yr. target L = Some yl \<and> target R = Some yr
            \<and> ([5], 20) \<in> set (zip (samples (features L)) yl)
            \<and> ([5], 20) \<notin> set (zip (samples (features R)) yr)))"
proof -
  have h1: "norm_index (n_features example_X) (split_feature example_split) = Inr 0"
    by (simp add: norm_index_def)
  have h2: "case Some example_y of None \<Rightarrow> True | Some yv \<Rightarrow> length yv = n_samples example_X"
    by (simp add: n_samples_def)
  have h3: "1 < n_samples example_X" by (simp add: n_samples_def)
  have h4: "samples example_X ! 1 ! 0 = split_threshold example_split" by simp
  from apply_split_tie_left [OF h1 h2 h3 h4] h1 h2 h3 h4 show ?thesis by simp
qed

text \<open>
  C3: for a split on a valid column of \<open>X\<close>, and \<open>y\<close> absent or as long as
  \<open>X\<close> has rows, the left subset holds the rows of \<open>X\<close> at strictly
  increasing positions \<open>il\<close>, the right subset those at strictly increasing
  positions \<open>ir\<close>, every position of \<open>X\<close> being in exactly one of the two;
  with \<open>y\<close>, the targets of a subset are the entries of \<open>y\<close> at the same
  positions, so the i-th target of a subset belongs to its i-th row.
\<close>

theorem apply_split_stable:
  assumes "- int (n_features X) \<le> split_feature self"
    and "split_feature self < int (n_features X)"
    and "case y of None \<Rightarrow> True | Some yv \<Rightarrow> length yv = n_samples X"
  shows "\<exists>il ir. sorted_wrt (<) il \<and> sorted_wrt (<) ir
     \<and> set il \<union> set ir = {..<n_samples X} \<and> set il \<inter> set ir = {}
     \<and> apply_split self X y = Inr
         (case y of
            None \<Rightarrow>
              [Features \<lparr>n_features = n_features X, samples = map ((!) (samples X)) il\<rparr>,
               Features \<lparr>n_features = n_features X, samples = map ((!) (samples X)) ir\<rparr>]
          | Some yv \<Rightarrow>
              [WithTarget \<lparr>n_features = n_features X, samples = map ((!) (samples X)) il\<rparr>
                 (map ((!) yv) il),
               WithTarget \<lparr>n_features = n_features X, samples = map ((!) (samples X)) ir\<rparr>
                 (map ((!) yv) ir)])"
proof -
  from apply_split_returns [OF assms] obtain res where r: "apply_split self X y = Inr res" ..
  show ?thesis unfolding r using apply_split_Inr_stable [OF r assms(3)]
    by (cases y) auto
qed

theorem apply_split_stable_witness:
  "- int (n_features example_X) \<le> split_feature example_split
   \<and> split_feature example_split < int (n_features example_X)
   \<and> length example_y = n_samples example_X
   \<and> (\<exists>il ir. sorted_wrt (<) il \<and> sorted_wrt (<) ir
       \<and> set il \<union> set ir = {..<n_samples example_X} \<and> set il \<inter> set ir = {}
       \<and> apply_split example_split example_X (Some example_y) = Inr
          [WithTarget \<lparr>n_features = n_features example_X,
             samples = map ((!) (samples example_X)) il\<rparr> (map ((!) example_y) il),
           WithTarget \<lparr>n_features = n_features example_X,
             samples = map ((!) (samples example_X)) ir\<rparr> (map ((!) example_y) ir)])"
  using apply_split_stable [of example_X example_split "Some example_y"]
  by (simp add: n_samples_def)

text \<open>
  C4: \<open>Split(split_feature=0, split_threshold=5)\<close> applied to
  \<open>X = [[3],[5],[7]]\<close> returns \<open>[[3],[5]]\<close> and \<open>[[7]]\<close>, in that order, and
  with \<open>y = [10,20,30]\<close> it returns \<open>([[3],[5]], [10,20])\<close> and
  \<open>([[7]], [30])\<close>.
\<close>

theorem apply_split_example:
  "apply_split \<lparr>split_feature = 0, split_threshold = (5::int)\<rparr>
     \<lparr>n_features = 1, samples = [[3], [5], [7]]\<rparr> (None :: int list option)
   = Inr [Features \<lparr>n_features = 1, samples = [[3], [5]]\<rparr>,
          Features \<lparr>n_features = 1, samples = [[7]]\<rparr>]
   \<and> apply_split \<lparr>split_feature = 0, split_threshold = (5::int)\<rparr>
     \<lparr>n_features = 1, samples = [[3], [5], [7]]\<rparr> (Some [10, 20, 30 :: int])
   = Inr [WithTarget \<lparr>n_features = 1, samples = [[3], [5]]\<rparr> [10, 20],
          WithTarget \<lparr>n_features = 1, samples = [[7]]\<rparr> [30]]"
  by (simp add: apply_split_def get_column_def norm_index_def le_scalar_def
      invert_def mask_rows_def mask_select_def)

lemma resplit_left_aligned:
  assumes "apply_split self X y = Inr [L, R]"
    and "case y of None \<Rightarrow> True | Some yv \<Rightarrow> length yv = n_samples X"
  shows "apply_split self (features L) (target L) =
     Inr [L, (case y of
                None \<Rightarrow> Features \<lparr>n_features = n_features X, samples = []\<rparr>
              | Some yv \<Rightarrow> WithTarget \<lparr>n_features = n_features X, samples = []\<rparr> [])]"
proof -
  from apply_split_Inr_D [OF assms(1)]
  obtain j where j: "norm_index (n_features X) (split_feature self) = Inr j"
    by blast
  define Q where "Q = (\<lambda>r::'a list. r ! j \<le> split_threshold self)"
  define XL where "XL = \<lparr>n_features = n_features X, samples = filter Q (samples X)\<rparr>"
  have jL: "norm_index (n_features XL) (split_feature self) = Inr j"
    using j by (simp add: XL_def)
  have ff: "filter Q (samples XL) = samples XL" "filter (\<lambda>r. \<not> Q r) (samples XL) = []"
    by (simp_all add: XL_def filter_empty_conv)
  have nL: "n_features XL = n_features X" by (simp add: XL_def)
  show ?thesis
  proof (cases y)
    case None
    from apply_split_None_eq [OF j None] assms(1)
    have L: "L = Features XL" by (simp add: Q_def XL_def)
    have "apply_split self XL (target L) =
        Inr [Features \<lparr>n_features = n_features XL, samples = filter Q (samples XL)\<rparr>,
             Features \<lparr>n_features = n_features XL, samples = filter (\<lambda>r. \<not> Q r) (samples XL)\<rparr>]"
      using apply_split_None_eq [OF jL, of "target L"] L by (simp add: Q_def)
    then have "apply_split self XL (target L) =
        Inr [Features XL, Features \<lparr>n_features = n_features X, samples = []\<rparr>]"
      unfolding ff nL by (simp add: XL_def)
    with L None show ?thesis by simp
  next
    case (Some yv)
    with assms(2) have lyv: "length yv = length (samples X)" by (simp add: n_samples_def)
    define yl where "yl = map snd (filter (\<lambda>p. Q (fst p)) (zip (samples X) yv))"
    from apply_split_Some_eq [OF j lyv] assms(1) Some
    have L: "L = WithTarget XL yl" by (simp add: Q_def XL_def yl_def)
    have lyl: "length yl = length (samples XL)"
      using length_filter_zip_fst [OF lyv, of Q] by (simp add: yl_def XL_def)
    have zl: "zip (samples XL) yl = filter (\<lambda>p. Q (fst p)) (zip (samples X) yv)"
      using zip_filter_fst [OF lyv, of Q] by (simp add: XL_def yl_def)
    have fz: "filter (\<lambda>p. Q (fst p)) (zip (samples XL) yl) = zip (samples XL) yl"
      "filter (\<lambda>p. \<not> Q (fst p)) (zip (samples XL) yl) = []"
      unfolding zl by (simp_all add: filter_empty_conv)
    have ms: "map snd (zip (samples XL) yl) = yl"
      using lyl by (simp add: map_snd_zip)
    have "apply_split self XL (Some yl) =
        Inr [WithTarget \<lparr>n_features = n_features XL, samples = filter Q (samples XL)\<rparr>
               (map snd (filter (\<lambda>p. Q (fst p)) (zip (samples XL) yl))),
             WithTarget \<lparr>n_features = n_features XL, samples = filter (\<lambda>r. \<not> Q r) (samples XL)\<rparr>
               (map snd (filter (\<lambda>p. \<not> Q (fst p)) (zip (samples XL) yl)))]"
      using apply_split_Some_eq [OF jL lyl] by (simp add: Q_def)
    then have "apply_split self XL (Some yl) =
        Inr [WithTarget XL yl, WithTarget \<lparr>n_features = n_features X, samples = []\<rparr> []]"
      unfolding ff fz ms nL by (simp add: XL_def)
    with L Some show ?thesis by simp
  qed
qed

text \<open>
  C5: applying the same split to the left subset it produced (the feature rows,
  and the targets when there are any) returns that subset as the left output
  and a subset with no rows as the right output.
\<close>

theorem resplit_left:
  assumes "apply_split self X y = Inr [L, R]"
  shows "apply_split self (features L) (target L) =
     Inr [L, (case y of
                None \<Rightarrow> Features \<lparr>n_features = n_features X, samples = []\<rparr>
              | Some yv \<Rightarrow> WithTarget \<lparr>n_features = n_features X, samples = []\<rparr> [])]"
proof -
  from apply_split_Inr_aligned [OF assms] obtain y' where
    r: "apply_split self X y' = Inr [L, R]"
    and al: "case y' of None \<Rightarrow> True | Some yv \<Rightarrow> length yv = n_samples X"
    and same: "y' = None \<longleftrightarrow> y = None"
    by blast
  from same have "(case y' of
                None \<Rightarrow> Features \<lparr>n_features = n_features X, samples = []\<rparr>
              | Some yv \<Rightarrow> WithTarget \<lparr>n_features = n_features X, samples = []\<rparr> [])
      = (case y of
                None \<Rightarrow> Features \<lparr>n_features = n_features X, samples = []\<rparr>
              | Some yv \<Rightarrow> WithTarget \<lparr>n_features = n_features X, samples = []\<rparr> [])"
    by (cases y; cases y') simp_all
  with resplit_left_aligned [OF r al] show ?thesis by simp
qed

theorem resplit_left_witness:
  "apply_split example_split example_X (Some example_y) = Inr [example_left, example_right]
   \<and> apply_split example_split (features example_left) (target example_left)
       = Inr [example_left, WithTarget \<lparr>n_features = n_features example_X, samples = []\<rparr> []]"
  using resplit_left [OF example_split_y] example_split_y by simp

text \<open>
  C6: on a matrix with no rows and \<open>m\<close> columns, a split on a valid column
  raises nothing and returns two subsets with no rows, also with an empty \<open>y\<close>.
\<close>

theorem apply_split_empty:
  assumes "- int m \<le> split_feature self" and "split_feature self < int m"
  shows "apply_split self \<lparr>n_features = m, samples = []\<rparr> (None :: 'b list option)
       = Inr [Features \<lparr>n_features = m, samples = []\<rparr>,
              Features \<lparr>n_features = m, samples = []\<rparr>]
     \<and> apply_split self \<lparr>n_features = m, samples = []\<rparr> (Some ([] :: 'b list))
       = Inr [WithTarget \<lparr>n_features = m, samples = []\<rparr> [],
              WithTarget \<lparr>n_features = m, samples = []\<rparr> []]"
  using assms
  by (simp add: apply_split_def get_column_def norm_index_def le_scalar_def
      invert_def mask_rows_def mask_select_def)

theorem apply_split_empty_witness:
  "- int 2 \<le> split_feature \<lparr>split_feature = 1, split_threshold = (5::int)\<rparr>
   \<and> split_feature \<lparr>split_feature = 1, split_threshold = (5::int)\<rparr> < int 2
   \<and> apply_split \<lparr>split_feature = 1, split_threshold = (5::int)\<rparr>
        \<lparr>n_features = 2, samples = []\<rparr> (None :: int list option)
       = Inr [Features \<lparr>n_features = 2, samples = []\<rparr>,
              Features \<lparr>n_features = 2, samples = []\<rparr>]
   \<and> apply_split \<lparr>split_feature = 1, split_threshold = (5::int)\<rparr>
        \<lparr>n_features = 2, samples = []\<rparr> (Some ([] :: int list))
       = Inr [WithTarget \<lparr>n_features = 2, samples = []\<rparr> [],
              WithTarget \<lparr>n_features = 2, samples = []\<rparr> []]"
  using apply_split_empty [of 2 "\<lparr>split_feature = 1, split_threshold = (5::int)\<rparr>",
      where ?'b = int]
  by simp

text \<open>
  C7, as stated: the call raises whenever \<open>y\<close> has another number of rows than
  \<open>X\<close>. On a matrix with no rows the mask is empty and selects from a \<open>y\<close>
  of any length without an error: the call returns two empty pairs.
\<close>

theorem apply_split_no_rows_counterexample:
  "length [7 :: int] \<noteq> n_samples \<lparr>n_features = 2, samples = ([] :: int list list)\<rparr>
   \<and> apply_split \<lparr>split_feature = 0, split_threshold = (5::int)\<rparr>
        \<lparr>n_features = 2, samples = []\<rparr> (Some [7 :: int])
       = Inr [WithTarget \<lparr>n_features = 2, samples = []\<rparr> [],
              WithTarget \<lparr>n_features = 2, samples = []\<rparr> []]"
  by (simp add: n_samples_def apply_split_def get_column_def norm_index_def le_scalar_def
      invert_def mask_rows_def mask_select_def)

text \<open>
  C7, amended: when \<open>split_feature\<close> is out of bounds for the columns of \<open>X\<close>,
  or \<open>X\<close> has at least one row and \<open>y\<close> is given with another number of rows
  than \<open>X\<close>, the call raises \<open>IndexError\<close>; it returns no partition.
\<close>

theorem apply_split_raises:
  assumes "split_feature self < - int (n_features X)
     \<or> int (n_features X) \<le> split_feature self
     \<or> (\<exists>yv. y = Some yv \<and> length yv \<noteq> n_samples X \<and> 0 < n_samples X)"
  shows "apply_split self X y = Inl IndexError"
proof (cases "norm_index (n_features X) (split_feature self)")
  case (Inl e)
  then have "e = IndexError" by (simp add: norm_index_def split: if_splits)
  with Inl show ?thesis by (simp add: apply_split_index_error)
next
  case (Inr j)
  then have "\<not> (split_feature self < - int (n_features X)
     \<or> int (n_features X) \<le> split_feature self)"
    by (simp add: norm_index_def split: if_splits)
  with assms obtain yv where "y = Some yv" "length yv \<noteq> length (samples X)"
    "samples X \<noteq> []"
    by (auto simp: n_samples_def)
  with Inr show ?thesis by (simp add: apply_split_length_error)
qed

theorem apply_split_raises_witness:
  "length [10, 20 :: int] \<noteq> n_samples example_X
   \<and> 0 < n_samples example_X
   \<and> apply_split example_split example_X (Some [10, 20 :: int]) = Inl IndexError
   \<and> int (n_features example_X) \<le> split_feature \<lparr>split_feature = 1, split_threshold = (5::int)\<rparr>
   \<and> apply_split \<lparr>split_feature = 1, split_threshold = (5::int)\<rparr> example_X
        (None :: int list option) = Inl IndexError"
  using apply_split_raises [of example_split example_X "Some [10, 20 :: int]"]
    apply_split_raises [of "\<lparr>split_feature = 1, split_threshold = (5::int)\<rparr>" example_X
      "None :: int list option"]
  by (simp add: n_samples_def)

text \<open>
  C10: a negative \<open>split_feature\<close> \<open>f\<close> with \<open>-n_features \<le> f \<le> -1\<close> raises
  nothing by itself: the call behaves as the split on column \<open>n_features + f\<close>,
  and without \<open>y\<close> it returns the partition on that column. Without \<open>y\<close> the
  call raises exactly when \<open>f \<ge> n_features\<close> or \<open>f < -n_features\<close>.
\<close>

theorem apply_split_negative_feature:
  "(- int (n_features X) \<le> split_feature self \<and> split_feature self \<le> - 1 \<longrightarrow>
      apply_split self X y
        = apply_split (self\<lparr>split_feature := int (n_features X) + split_feature self\<rparr>) X y
      \<and> apply_split self X (None :: 'b list option) =
          Inr [Features \<lparr>n_features = n_features X,
                 samples = filter (\<lambda>r. r ! nat (int (n_features X) + split_feature self)
                                      \<le> split_threshold self) (samples X)\<rparr>,
               Features \<lparr>n_features = n_features X,
                 samples = filter (\<lambda>r. \<not> r ! nat (int (n_features X) + split_feature self)
                                      \<le> split_threshold self) (samples X)\<rparr>])
   \<and> ((\<exists>e. apply_split self X (None :: 'b list option) = Inl e) \<longleftrightarrow>
        int (n_features X) \<le> split_feature self \<or> split_feature self < - int (n_features X))"
proof (intro conjI impI)
  assume a: "- int (n_features X) \<le> split_feature self \<and> split_feature self \<le> - 1"
  then have n: "norm_index (n_features X) (split_feature self)
      = Inr (nat (int (n_features X) + split_feature self))"
    by (simp add: norm_index_def add.commute)
  from a have n': "norm_index (n_features X) (int (n_features X) + split_feature self)
      = Inr (nat (int (n_features X) + split_feature self))"
    by (simp add: norm_index_def)
  show "apply_split self X y
        = apply_split (self\<lparr>split_feature := int (n_features X) + split_feature self\<rparr>) X y"
    using n n' by (simp add: apply_split_def get_column_def)
  show "apply_split self X (None :: 'b list option) =
          Inr [Features \<lparr>n_features = n_features X,
                 samples = filter (\<lambda>r. r ! nat (int (n_features X) + split_feature self)
                                      \<le> split_threshold self) (samples X)\<rparr>,
               Features \<lparr>n_features = n_features X,
                 samples = filter (\<lambda>r. \<not> r ! nat (int (n_features X) + split_feature self)
                                      \<le> split_threshold self) (samples X)\<rparr>]"
    using n by (rule apply_split_None_eq) simp
next
  show "(\<exists>e. apply_split self X (None :: 'b list option) = Inl e) \<longleftrightarrow>
        int (n_features X) \<le> split_feature self \<or> split_feature self < - int (n_features X)"
  proof (cases "norm_index (n_features X) (split_feature self)")
    case (Inl e)
    then have "int (n_features X) \<le> split_feature self \<or> split_feature self < - int (n_features X)"
      by (auto simp: norm_index_def split: if_splits)
    with Inl show ?thesis
      using apply_split_index_error [of X self e "None :: 'b list option"] by simp
  next
    case (Inr j)
    then have "\<not> (int (n_features X) \<le> split_feature self \<or> split_feature self < - int (n_features X))"
      by (auto simp: norm_index_def split: if_splits)
    with Inr show ?thesis
      using apply_split_None_eq [of X self j "None :: 'b list option"] by simp
  qed
qed

theorem apply_split_negative_feature_witness:
  "- int (n_features \<lparr>n_features = 2, samples = [[1, 9], [2, 4 :: int]]\<rparr>) \<le> - 1
   \<and> apply_split \<lparr>split_feature = - 1, split_threshold = (5::int)\<rparr>
        \<lparr>n_features = 2, samples = [[1, 9], [2, 4]]\<rparr> (Some [10, 20 :: int])
       = apply_split \<lparr>split_feature = 1, split_threshold = (5::int)\<rparr>
        \<lparr>n_features = 2, samples = [[1, 9], [2, 4]]\<rparr> (Some [10, 20 :: int])
   \<and> apply_split \<lparr>split_feature = - 1, split_threshold = (5::int)\<rparr>
        \<lparr>n_features = 2, samples = [[1, 9], [2, 4]]\<rparr> (None :: int list option)
       = Inr [Features \<lparr>n_features = 2, samples = [[2, 4]]\<rparr>,
              Features \<lparr>n_features = 2, samples = [[1, 9]]\<rparr>]"
  using apply_split_negative_feature
    [of "\<lparr>n_features = 2, samples = [[1, 9], [2, 4 :: int]]\<rparr>"
        "\<lparr>split_feature = - 1, split_threshold = (5::int)\<rparr>" "Some [10, 20 :: int]",
      where ?'b = int]
  by simp

subsection \<open>The method over the store\<close>

text \<open>
  Every step only creates: it raises and leaves the store as it is, or it
  appends one object and returns its address.
\<close>

lemma st_column_le_creates:
  "(\<exists>e. st_column_le X_a self_a h = (Inl e, h))
   \<or> (\<exists>v. st_column_le X_a self_a h = (Inr (length h), h @ [v]))"
  unfolding st_column_le_def alloc_def
  by (auto split: option.splits obj.splits sum.splits)

lemma st_invert_creates:
  "(\<exists>e. st_invert m_a h = (Inl e, h))
   \<or> (\<exists>v. st_invert m_a h = (Inr (length h), h @ [v]))"
  unfolding st_invert_def alloc_def
  by (auto split: option.splits obj.splits sum.splits)

lemma st_mask_rows_creates:
  "(\<exists>e. st_mask_rows X_a m_a h = (Inl e, h))
   \<or> (\<exists>v. st_mask_rows X_a m_a h = (Inr (length h), h @ [v]))"
  unfolding st_mask_rows_def alloc_def
  by (auto split: option.splits obj.splits sum.splits)

lemma st_mask_select_creates:
  "(\<exists>e. st_mask_select y_a m_a h = (Inl e, h))
   \<or> (\<exists>v. st_mask_select y_a m_a h = (Inr (length h), h @ [v]))"
  unfolding st_mask_select_def alloc_def
  by (auto split: option.splits obj.splits sum.splits)

lemma st_bind_elim:
  assumes "st_bind m k h = (r, h')"
    and "(\<exists>e. m h = (Inl e, h)) \<or> (\<exists>v. m h = (Inr (length h), h @ [v]))"
  obtains (fail) e where "r = Inl e" and "h' = h"
    | (ok) v where "k (length h) (h @ [v]) = (r, h')"
  using assms(2)
proof
  assume "\<exists>e. m h = (Inl e, h)"
  then obtain e where "m h = (Inl e, h)" ..
  with assms(1) have "r = Inl e" "h' = h" by (simp_all add: st_bind_def)
  then show thesis by (rule fail)
next
  assume "\<exists>v. m h = (Inr (length h), h @ [v])"
  then obtain v where "m h = (Inr (length h), h @ [v])" ..
  with assms(1) have "k (length h) (h @ [v]) = (r, h')" by (simp add: st_bind_def)
  then show thesis by (rule ok)
qed

lemma st_bind_column_le_elim:
  assumes "st_bind (st_column_le X_a self_a) k h = (r, h')"
  obtains (fail) e where "r = Inl e" and "h' = h"
    | (ok) v where "k (length h) (h @ [v]) = (r, h')"
  by (rule st_bind_elim [OF assms st_column_le_creates]) (blast intro: that)+

lemma st_bind_invert_elim:
  assumes "st_bind (st_invert m_a) k h = (r, h')"
  obtains (fail) e where "r = Inl e" and "h' = h"
    | (ok) v where "k (length h) (h @ [v]) = (r, h')"
  by (rule st_bind_elim [OF assms st_invert_creates]) (blast intro: that)+

lemma st_bind_mask_rows_elim:
  assumes "st_bind (st_mask_rows X_a m_a) k h = (r, h')"
  obtains (fail) e where "r = Inl e" and "h' = h"
    | (ok) v where "k (length h) (h @ [v]) = (r, h')"
  by (rule st_bind_elim [OF assms st_mask_rows_creates]) (blast intro: that)+

lemma st_bind_mask_select_elim:
  assumes "st_bind (st_mask_select y_a m_a) k h = (r, h')"
  obtains (fail) e where "r = Inl e" and "h' = h"
    | (ok) v where "k (length h) (h @ [v]) = (r, h')"
  by (rule st_bind_elim [OF assms st_mask_select_creates]) (blast intro: that)+

lemmas st_bind_elims = st_bind_column_le_elim st_bind_invert_elim st_bind_mask_rows_elim
  st_bind_mask_select_elim

lemma apply_split_store_extends:
  assumes "apply_split_store self_a X_a y_a h = (r, h')"
  shows "\<exists>ext. h' = h @ ext"
  using assms unfolding apply_split_store_def
  by (cases y_a) (auto elim!: st_bind_elims)

lemma apply_split_store_result:
  assumes "apply_split_store self_a X_a y_a h = (Inr res, h')"
  shows "length h + 7 \<le> length h' + (if y_a = None then 3 else 0) \<and> res =
     (case y_a of
        None \<Rightarrow> [Features_ref (length h + 1), Features_ref (length h + 3)]
      | Some ya \<Rightarrow> [WithTarget_ref (length h + 1) (length h + 2),
                    WithTarget_ref (length h + 4) (length h + 6)])"
  using assms unfolding apply_split_store_def
  by (cases y_a) (auto elim!: st_bind_elims)


lemma lookup_append: "a < length h \<Longrightarrow> lookup (h @ ext) a = lookup h a"
  by (simp add: lookup_def nth_append)

lemma lookup_Some_less: "lookup h a = Some v \<Longrightarrow> a < length h"
  by (simp add: lookup_def split: if_splits)

text \<open>
  The run over the store computes what the function of values computes: the
  same error, or references to arrays that hold the same subsets.
\<close>

lemma apply_split_store_refines:
  assumes "lookup h self_a = Some (Split_obj self)"
    and "lookup h X_a = Some (Array2 X)"
    and "case y_a of None \<Rightarrow> y = None
         | Some ya \<Rightarrow> \<exists>yv. lookup h ya = Some (Array1 yv) \<and> y = Some yv"
    and "apply_split_store self_a X_a y_a h = (r, h')"
  shows "map_sum id (map (deref h')) r = map_sum id (map Some) (apply_split self X y)"
proof -
  have lt: "self_a < length h" "X_a < length h"
    using assms(1,2) by (auto dest: lookup_Some_less)
  show ?thesis
  proof (cases y_a)
    case None
    with assms(3) have y: "y = None" by simp
    from assms(4) assms(1,2) lt show ?thesis
      unfolding apply_split_store_def None y apply_split_def st_bind_def
        st_column_le_def st_mask_rows_def st_invert_def alloc_def
      by (auto simp: lookup_def nth_append Let_def split: sum.splits)
  next
    case (Some ya)
    with assms(3) obtain yv where yv: "lookup h ya = Some (Array1 yv)" and y: "y = Some yv"
      by auto
    have lty: "ya < length h" using yv by (rule lookup_Some_less)
    from assms(4) assms(1,2) lt yv lty show ?thesis
      unfolding apply_split_store_def Some y apply_split_def st_bind_def
        st_column_le_def st_mask_rows_def st_mask_select_def st_invert_def alloc_def
      by (auto simp: lookup_def nth_append Let_def split: sum.splits)
  qed
qed

text \<open>
  C8: the call changes no object that existed before it, so \<open>X\<close>, \<open>y\<close> and
  the split with its two fields are after the call what they were before; and
  the arrays it returns are objects created by the call, pairwise different.
\<close>

theorem apply_split_store_frame:
  assumes "apply_split_store self_a X_a y_a h = (r, h')"
  shows "(\<forall>a. a < length h \<longrightarrow> lookup h' a = lookup h a)
     \<and> (\<forall>res. r = Inr res \<longrightarrow>
          distinct (concat (map refs res))
          \<and> (\<forall>a \<in> set (concat (map refs res)). length h \<le> a \<and> a < length h'))"
proof -
  have old: "lookup h' a = lookup h a" if "a < length h" for a
    using apply_split_store_extends [OF assms] that by (auto simp: lookup_append)
  have new: "distinct (concat (map refs res))
      \<and> (\<forall>a \<in> set (concat (map refs res)). length h \<le> a \<and> a < length h')"
    if "r = Inr res" for res
  proof -
    from assms that have "apply_split_store self_a X_a y_a h = (Inr res, h')" by simp
    from apply_split_store_result [OF this] show ?thesis by (cases y_a) auto
  qed
  from old new show ?thesis by blast
qed

lemma example_store_run:
  "apply_split_store 0 1 (Some 2)
     [Split_obj example_split, Array2 example_X, Array1 example_y]
   = (Inr [WithTarget_ref 4 5, WithTarget_ref 7 9],
      [Split_obj example_split, Array2 example_X, Array1 example_y,
       Bool_array [True, True, False],
       Array2 \<lparr>n_features = 1, samples = [[3], [5]]\<rparr>, Array1 [10, 20],
       Bool_array [False, False, True],
       Array2 \<lparr>n_features = 1, samples = [[7]]\<rparr>,
       Bool_array [False, False, True], Array1 [30]])"
  by (simp add: apply_split_store_def st_bind_def st_column_le_def st_mask_rows_def
      st_mask_select_def st_invert_def alloc_def lookup_def get_column_def norm_index_def
      le_scalar_def invert_def mask_rows_def mask_select_def)

theorem apply_split_store_frame_witness:
  "apply_split_store 0 1 (Some 2)
     [Split_obj example_split, Array2 example_X, Array1 example_y]
   = (Inr [WithTarget_ref 4 5, WithTarget_ref 7 9],
      [Split_obj example_split, Array2 example_X, Array1 example_y,
       Bool_array [True, True, False],
       Array2 \<lparr>n_features = 1, samples = [[3], [5]]\<rparr>, Array1 [10, 20],
       Bool_array [False, False, True],
       Array2 \<lparr>n_features = 1, samples = [[7]]\<rparr>,
       Bool_array [False, False, True], Array1 [30]])
   \<and> lookup [Split_obj example_split, Array2 example_X, Array1 example_y,
       Bool_array [True, True, False],
       Array2 \<lparr>n_features = 1, samples = [[3], [5]]\<rparr>, Array1 [10, 20],
       Bool_array [False, False, True],
       Array2 \<lparr>n_features = 1, samples = [[7]]\<rparr>,
       Bool_array [False, False, True], Array1 [30]] 1
     = lookup [Split_obj example_split, Array2 example_X, Array1 example_y] 1
   \<and> distinct (concat (map refs [WithTarget_ref 4 5, WithTarget_ref 7 9]))"
  using apply_split_store_frame [OF example_store_run] example_store_run by simp

subsection \<open>The claim about \<open>TreeNode\<close>\<close>

text \<open>
  C9, as stated: every constructed node whose children are present has exactly
  two of them. The constructor checks nothing, so a node with one child is
  constructed like any other.
\<close>

theorem TreeNode_one_child_counterexample:
  "children (TreeNode 0 None (Some [TreeNode 1 None None None]) None :: (unit, int) TreeNode)
     = Some [TreeNode 1 None None None]
   \<and> length [TreeNode 1 None None None :: (unit, int) TreeNode] = 1
   \<and> \<not> valid_node (TreeNode 0 None (Some [TreeNode 1 None None None]) None
         :: (unit, int) TreeNode)"
  by simp

text \<open>
  C9, amended: the constructor stores the \<open>children\<close> argument as it is given,
  and the constructed node has the shape (children absent, or exactly two
  nodes that have the shape themselves) exactly when the argument is absent
  or is a list of exactly two nodes that have it.
\<close>

theorem TreeNode_children_as_given:
  "children (TreeNode d e c s) = c
   \<and> (valid_node (TreeNode d e c s) \<longleftrightarrow>
        c = None \<or> (\<exists>a b. c = Some [a, b] \<and> valid_node a \<and> valid_node b))"
proof (cases c)
  case None
  then show ?thesis by simp
next
  case (Some cs)
  have "length cs = 2 \<longleftrightarrow> (\<exists>a b. cs = [a, b])"
    by (cases cs; cases "tl cs") auto
  with Some show ?thesis by auto
qed

theorem TreeNode_children_as_given_witness:
  "children (TreeNode 0 None
       (Some [TreeNode 1 (Some ()) None None, TreeNode 1 (Some ()) None None])
       (Some \<lparr>split_feature = 0, split_threshold = (0::int)\<rparr>))
     = Some [TreeNode 1 (Some ()) None None, TreeNode 1 (Some ()) None None]
   \<and> valid_node (TreeNode 0 None
       (Some [TreeNode 1 (Some ()) None None, TreeNode 1 (Some ()) None None])
       (Some \<lparr>split_feature = 0, split_threshold = (0::int)\<rparr>))"
  using TreeNode_children_as_given
    [of 0 None "Some [TreeNode 1 (Some ()) None None, TreeNode 1 (Some ()) None None]"
        "Some \<lparr>split_feature = 0, split_threshold = (0::int)\<rparr>"]
  by simp

end
